theory Spec2Isabelle
  imports Complex_Main "HOL-Library.Multiset" "HOL-Library.Product_Lexorder"
begin

section \<open>Data model (types.ts)\<close>

text \<open>
  JavaScript numbers that hold chain integers (block numbers, log indexes) are integers
  here. The \<open>logIndex\<close> of a MintItem is a rational: the decoder adds \<open>i * 0.001\<close> to an
  integer, and the sum is taken exactly (the rounding of IEEE doubles is not modelled; the
  sign of a difference of two doubles, which is all the sort looks at, is the sign of the
  exact difference). Values of \<open>uint256\<close> are natural numbers, as \<open>bigint\<close> is unbounded.
  An optional field is an \<open>option\<close>; \<open>None\<close> is \<open>undefined\<close>.
\<close>

datatype TokenType = ERC20 | ERC721 | ERC1155

record MintItem =
  blockNumber :: int
  txHash :: string
  logIndex :: rat
  contract :: string
  to :: string
  type :: TokenType
  tokenId :: "string option"
  amount :: "string option"
  timestamp :: "nat option"

record ContractMeta =
  name :: "string option"
  symbol :: "string option"
  decimals :: "int option"

text \<open>
  CollSummary carries the three fields of ContractMeta and five of its own, so it is the
  extension of ContractMeta: the spread \<open>{ ...cur, ...meta }\<close> is then the update of the
  three inherited fields. Its \<open>type\<close> field is \<open>summaryType\<close> (the name \<open>type\<close> is the
  field of MintItem).
\<close>

record CollSummary = ContractMeta +
  address :: string
  summaryType :: TokenType
  totalMintEvents :: nat
  uniqueTokens :: nat
  tokenIds :: "string set"

text \<open>The fields of an ethers \<open>Log\<close> that the program reads.\<close>

record Log =
  log_blockNumber :: int
  log_transactionHash :: string
  log_index :: int
  log_address :: string
  log_topics :: "string list"
  log_data :: string

section \<open>Constants (constants.ts)\<close>

text \<open>\<open>ZERO_TOPIC = ethers.zeroPadValue(ZERO_ADDR, 32)\<close>: the prefix and 64 zero digits.\<close>

definition ZERO_TOPIC :: string where
  "ZERO_TOPIC = ''0x'' @ replicate 64 (CHR ''0'')"

definition TRANSFER_TOPIC :: string where
  "TRANSFER_TOPIC = ''0xddf252ad1be2c89b69c2b068fc378daa952ba7f163c4a11628f55a4df523b3ef''"

definition TRANSFER_SINGLE_TOPIC :: string where
  "TRANSFER_SINGLE_TOPIC = ''0xc3d58168c5ae7397731d063d5bbf3d657854427343f4c083240f7aacaa2d0f62''"

definition TRANSFER_BATCH_TOPIC :: string where
  "TRANSFER_BATCH_TOPIC = ''0x4a39dc06d4c0dbc64b70af90fd698a233a518aa5d07e595d983b8c0526c8f7fb''"

definition MINT_CONTRACT_WHITELIST :: "string list" where
  "MINT_CONTRACT_WHITELIST = [''0x00000000009a1E02f00E280dcfA4C81c55724212'']"

section \<open>The ethers library as an interface\<close>

text \<open>
  The program calls the ethers library to validate addresses, to read a hexadecimal
  string as an integer and to decode a payload of the contract ABI. The library is not
  part of the repository, so \<open>processLog\<close> takes these functions as a parameter. Each
  returns \<open>None\<close> where the library throws.
  \<^item> \<open>getAddress\<close>: \<open>ethers.getAddress\<close>, the checksummed form of a valid address;
  \<^item> \<open>toBigInt\<close>: \<open>ethers.toBigInt\<close> on a hexadecimal string;
  \<^item> \<open>decode_uint256\<close>: \<open>decode(['uint256'], data)[0]\<close>;
  \<^item> \<open>decode_pair\<close>: \<open>decode(['uint256', 'uint256'], data)\<close>;
  \<^item> \<open>decode_arrays\<close>: \<open>decode(['uint256[]', 'uint256[]'], data)\<close>.
\<close>

record ethers =
  getAddress :: "string \<Rightarrow> string option"
  toBigInt :: "string \<Rightarrow> nat option"
  decode_uint256 :: "string \<Rightarrow> nat option"
  decode_pair :: "string \<Rightarrow> (nat \<times> nat) option"
  decode_arrays :: "string \<Rightarrow> (nat list \<times> nat list) option"

text \<open>\<open>bigint.toString()\<close>: the decimal digits, most significant first.\<close>

definition digitChar :: "nat \<Rightarrow> char" where
  "digitChar d = ''0123456789'' ! d"

fun toString :: "nat \<Rightarrow> string" where
  "toString n =
     (if n < 10 then [digitChar n] else toString (n div 10) @ [digitChar (n mod 10)])"

declare toString.simps [simp del]

section \<open>processLog\<close>

text \<open>
  What can be thrown inside the \<open>try\<close> block of \<open>processLog\<close>: a method call on
  \<open>undefined\<close> (\<open>log.topics[2].slice\<close> when the log has too few topics), a rejected
  address, a rejected integer, a payload that does not decode, and an index beyond the
  end of a decoded array (\<open>values[i]\<close> when \<open>values\<close> is shorter than \<open>ids\<close>).
\<close>

datatype error = TypeError | InvalidAddress | InvalidBigInt | AbiDecodeError | RangeError

text \<open>Reading \<open>log.topics[i]\<close>: \<open>undefined\<close> beyond the end.\<close>

definition topicAt :: "string list \<Rightarrow> nat \<Rightarrow> string option" where
  "topicAt ts i = (if i < length ts then Some (ts ! i) else None)"

text \<open>\<open>ethers.getAddress(`0x${log.topics[i].slice(26)}`)\<close>\<close>

definition topicAddress :: "ethers \<Rightarrow> string list \<Rightarrow> nat \<Rightarrow> error + string" where
  "topicAddress lib ts i =
     (case topicAt ts i of
        None \<Rightarrow> Inl TypeError
      | Some t \<Rightarrow>
          (case getAddress lib (''0x'' @ drop 26 t) of
             None \<Rightarrow> Inl InvalidAddress
           | Some a \<Rightarrow> Inr a))"

text \<open>\<open>baseItem\<close>: the four fields every item of a log shares; the rest is filled in.\<close>

definition baseItem :: "Log \<Rightarrow> string \<Rightarrow> MintItem" where
  "baseItem lg c =
     \<lparr>blockNumber = log_blockNumber lg, txHash = log_transactionHash lg,
      logIndex = of_int (log_index lg), contract = c, to = [], type = ERC20,
      tokenId = None, amount = None, timestamp = None\<rparr>"

text \<open>
  The loop of the batch branch. \<open>results\<close> is the array built so far; an index beyond
  \<open>values\<close> throws before the push, and the \<open>catch\<close> keeps what was pushed.
\<close>

function batchLoop ::
  "MintItem \<Rightarrow> string \<Rightarrow> nat list \<Rightarrow> nat list \<Rightarrow> nat \<Rightarrow> MintItem list
     \<Rightarrow> MintItem list \<times> error option" where
  "batchLoop base recipient ids vals i results =
     (if i < length ids then
        (if i < length vals then
           batchLoop base recipient ids vals (Suc i)
             (results @ [base\<lparr>logIndex := logIndex base + of_nat i * (1 / 1000),
                               to := recipient, type := ERC1155,
                               tokenId := Some (toString (ids ! i)),
                               amount := Some (toString (vals ! i))\<rparr>])
         else (results, Some RangeError))
      else (results, None))"
  by pat_completeness auto
termination
  by (relation "measure (\<lambda>(base, recipient, ids, vals, i, results). length ids - i)") auto

declare batchLoop.simps [simp del]

text \<open>
  The body of the \<open>try\<close> block: the array \<open>results\<close> at the point where the block is left,
  and the exception that left it, if any.
\<close>

definition tryBody :: "ethers \<Rightarrow> Log \<Rightarrow> MintItem \<Rightarrow> MintItem list \<times> error option" where
  "tryBody lib lg base =
     (let ts = log_topics lg in
      if topicAt ts 0 = Some TRANSFER_TOPIC then
        (if topicAt ts 1 = Some ZERO_TOPIC then
           (case topicAddress lib ts 2 of
              Inl e \<Rightarrow> ([], Some e)
            | Inr recipient \<Rightarrow>
                if length ts = 4 then
                  (case toBigInt lib (ts ! 3) of
                     None \<Rightarrow> ([], Some InvalidBigInt)
                   | Some n \<Rightarrow>
                       ([base\<lparr>to := recipient, type := ERC721,
                               tokenId := Some (toString n)\<rparr>], None))
                else
                  (case decode_uint256 lib (log_data lg) of
                     None \<Rightarrow> ([], Some AbiDecodeError)
                   | Some a \<Rightarrow>
                       ([base\<lparr>to := recipient, type := ERC20,
                               amount := Some (toString a)\<rparr>], None)))
         else ([], None))
      else if topicAt ts 0 = Some TRANSFER_SINGLE_TOPIC then
        (if topicAt ts 2 = Some ZERO_TOPIC then
           (case topicAddress lib ts 3 of
              Inl e \<Rightarrow> ([], Some e)
            | Inr recipient \<Rightarrow>
                (case decode_pair lib (log_data lg) of
                   None \<Rightarrow> ([], Some AbiDecodeError)
                 | Some (tid, v) \<Rightarrow>
                     ([base\<lparr>to := recipient, type := ERC1155,
                             tokenId := Some (toString tid),
                             amount := Some (toString v)\<rparr>], None)))
         else ([], None))
      else if topicAt ts 0 = Some TRANSFER_BATCH_TOPIC then
        (if topicAt ts 2 = Some ZERO_TOPIC then
           (case topicAddress lib ts 3 of
              Inl e \<Rightarrow> ([], Some e)
            | Inr recipient \<Rightarrow>
                (case decode_arrays lib (log_data lg) of
                   None \<Rightarrow> ([], Some AbiDecodeError)
                 | Some (ids, vals) \<Rightarrow> batchLoop base recipient ids vals 0 []))
         else ([], None))
      else ([], None))"

text \<open>
  \<open>processLog\<close>: \<open>ethers.getAddress(log.address)\<close> is evaluated before the \<open>try\<close>, so its
  exception reaches the caller (\<open>Inl\<close>); everything thrown inside the \<open>try\<close> is caught and
  the function returns \<open>results\<close> as it then is.
\<close>

definition processLog :: "ethers \<Rightarrow> Log \<Rightarrow> error + MintItem list" where
  "processLog lib lg =
     (case getAddress lib (log_address lg) of
        None \<Rightarrow> Inl InvalidAddress
      | Some c \<Rightarrow> Inr (fst (tryBody lib lg (baseItem lg c))))"

section \<open>Session state\<close>

text \<open>
  The three pieces of state of the component: the \<open>mints\<close> array, the \<open>summaries\<close> object
  and the \<open>metaCache\<close> map. \<open>fetches\<close> is a history variable that the program does not
  have: it records, in order, each address for which \<open>enrichCollection\<close> went past its
  guard and issued the contract calls.

  The updater functions handed to \<open>setSummaries\<close> and \<open>setMints\<close> are applied in the order
  of the calls, each in one piece; the model applies them at the call.
\<close>

record session =
  mints :: "MintItem list"
  summaries :: "string \<rightharpoonup> CollSummary"
  metaCache :: "string \<rightharpoonup> ContractMeta"
  fetches :: "(string \<times> TokenType) list"

text \<open>
  The state at the start of a live session: \<open>startLive\<close> empties the array, the object and
  the cache before it registers the listener.
\<close>

definition startLive :: session where
  "startLive = \<lparr>mints = [], summaries = Map.empty, metaCache = Map.empty, fetches = []\<rparr>"

text \<open>
  \<open>httpProvider\<close> is \<open>null\<close> or a provider. Of a provider the model keeps the timestamp
  that \<open>getBlock\<close> gives for a block number, \<open>None\<close> when the call throws or finds no block.
\<close>

type_synonym provider = "int \<Rightarrow> nat option"

definition fetchTimestamp :: "provider option \<Rightarrow> int \<Rightarrow> nat option" where
  "fetchTimestamp httpProvider bn =
     (case httpProvider of
        None \<Rightarrow> None
      | Some getBlock \<Rightarrow>
          (case getBlock bn of
             None \<Rightarrow> None
           | Some t \<Rightarrow> if t \<noteq> 0 then Some t else None))"

section \<open>enrichCollection\<close>

text \<open>The placeholder \<open>{}\<close> that marks a fetch in flight.\<close>

definition emptyMeta :: ContractMeta where
  "emptyMeta = \<lparr>name = None, symbol = None, decimals = None\<rparr>"

text \<open>
  The part of \<open>enrichCollection\<close> that runs before its \<open>await\<close>: the guard, the
  placeholder, and the calls \<open>c.name()\<close>, \<open>c.symbol()\<close> and, for ERC-20, \<open>c.decimals()\<close>.
\<close>

definition enrichCollection :: "provider option \<Rightarrow> string \<Rightarrow> TokenType \<Rightarrow> session \<Rightarrow> session" where
  "enrichCollection httpProvider addr ty s =
     (if httpProvider = None \<or> metaCache s addr \<noteq> None then s
      else s\<lparr>metaCache := (metaCache s)(addr \<mapsto> emptyMeta),
              fetches := fetches s @ [(addr, ty)]\<rparr>)"

text \<open>
  The part after the \<open>await\<close>. The three arguments are the settled promises: \<open>Some v\<close> for
  \<open>fulfilled\<close> with value \<open>v\<close>, \<open>None\<close> for \<open>rejected\<close>; there is a third promise only for
  ERC-20.
\<close>

definition settledMeta ::
  "TokenType \<Rightarrow> string option \<Rightarrow> string option \<Rightarrow> int option \<Rightarrow> ContractMeta" where
  "settledMeta ty nameRes symbolRes decimalsRes =
     \<lparr>name = nameRes, symbol = symbolRes,
      decimals = (if ty = ERC20 then decimalsRes else None)\<rparr>"

definition enrichResolved :: "string \<Rightarrow> ContractMeta \<Rightarrow> session \<Rightarrow> session" where
  "enrichResolved addr meta s =
     s\<lparr>metaCache := (metaCache s)(addr \<mapsto> meta),
       summaries :=
         (case summaries s addr of
            None \<Rightarrow> summaries s
          | Some cur \<Rightarrow>
              (summaries s)(addr \<mapsto>
                 cur\<lparr>name := name meta, symbol := symbol meta, decimals := decimals meta\<rparr>))\<rparr>"

section \<open>upsertSummary\<close>

text \<open>\<open>metaCache.current.get(addr)?.name\<close> and its two siblings.\<close>

definition cached :: "session \<Rightarrow> string \<Rightarrow> ContractMeta" where
  "cached s addr = (case metaCache s addr of None \<Rightarrow> emptyMeta | Some m \<Rightarrow> m)"

text \<open>\<open>if (item.tokenId)\<close>: a string is truthy when it is not empty.\<close>

definition truthy :: "string option \<Rightarrow> bool" where
  "truthy v = (case v of None \<Rightarrow> False | Some t \<Rightarrow> t \<noteq> [])"

definition upsertSummary :: "MintItem \<Rightarrow> session \<Rightarrow> session" where
  "upsertSummary item s =
     (let addr = contract item;
          cur = (case summaries s addr of
                   Some c \<Rightarrow> c
                 | None \<Rightarrow>
                     \<lparr>name = name (cached s addr), symbol = symbol (cached s addr),
                      decimals = decimals (cached s addr),
                      address = addr, summaryType = type item,
                      totalMintEvents = 0, uniqueTokens = 0, tokenIds = {}\<rparr>);
          ids = (if truthy (tokenId item) then insert (the (tokenId item)) (tokenIds cur)
                 else tokenIds cur);
          next = cur\<lparr>tokenIds := ids, uniqueTokens := card ids,
                     totalMintEvents := totalMintEvents cur + 1\<rparr>
      in s\<lparr>summaries := (summaries s)(addr \<mapsto> next)\<rparr>)"

section \<open>processNewItems\<close>

text \<open>
  The comparator of the sort, \<open>b.blockNumber - a.blockNumber || b.logIndex - a.logIndex\<close>:
  the first difference unless it is zero.
\<close>

definition mintCompare :: "MintItem \<Rightarrow> MintItem \<Rightarrow> rat" where
  "mintCompare a b =
     (if of_int (blockNumber b - blockNumber a) \<noteq> (0 :: rat)
      then of_int (blockNumber b - blockNumber a)
      else logIndex b - logIndex a)"

text \<open>
  \<open>Array.prototype.sort\<close> with a comparator is a stable sort: \<open>a\<close> stays before \<open>b\<close> unless
  the comparator is positive on them. It is an insertion sort here.
\<close>

fun insertBy :: "('a \<Rightarrow> 'a \<Rightarrow> rat) \<Rightarrow> 'a \<Rightarrow> 'a list \<Rightarrow> 'a list" where
  "insertBy cmp x [] = [x]"
| "insertBy cmp x (y # ys) = (if cmp x y \<le> 0 then x # y # ys else y # insertBy cmp x ys)"

definition sortBy :: "('a \<Rightarrow> 'a \<Rightarrow> rat) \<Rightarrow> 'a list \<Rightarrow> 'a list" where
  "sortBy cmp xs = foldr (insertBy cmp) xs []"

text \<open>One turn of the first loop: the summary, then the enrichment if nothing is cached.\<close>

definition ingestItem :: "provider option \<Rightarrow> session \<Rightarrow> MintItem \<Rightarrow> session" where
  "ingestItem httpProvider s it =
     (let s1 = upsertSummary it s
      in if metaCache s1 (contract it) = None
         then enrichCollection httpProvider (contract it) (type it) s1
         else s1)"

text \<open>
  The second loop looks each block number up once and writes the answer into every item
  of that block.
\<close>

definition stamp :: "provider option \<Rightarrow> MintItem \<Rightarrow> MintItem" where
  "stamp httpProvider it = it\<lparr>timestamp := fetchTimestamp httpProvider (blockNumber it)\<rparr>"

definition processNewItems :: "provider option \<Rightarrow> MintItem list \<Rightarrow> session \<Rightarrow> session" where
  "processNewItems httpProvider newItems s =
     (if length newItems = 0 then s
      else
        (let s1 = foldl (ingestItem httpProvider) s newItems
         in s1\<lparr>mints := sortBy mintCompare (map (stamp httpProvider) newItems @ mints s1)\<rparr>))"

section \<open>The listener\<close>

text \<open>\<open>toLowerCase\<close> on the letters A to Z; every other character is kept.\<close>

definition lowerChar :: "char \<Rightarrow> char" where
  "lowerChar c =
     (case map_of (zip ''ABCDEFGHIJKLMNOPQRSTUVWXYZ'' ''abcdefghijklmnopqrstuvwxyz'') c of
        None \<Rightarrow> c
      | Some l \<Rightarrow> l)"

definition toLowerCase :: "string \<Rightarrow> string" where
  "toLowerCase a = map lowerChar a"

definition allowedMintContracts :: "string set" where
  "allowedMintContracts = set (map toLowerCase MINT_CONTRACT_WHITELIST)"

text \<open>
  The result of \<open>getTransaction\<close>: \<open>None\<close> for \<open>null\<close>, otherwise the \<open>to\<close> field of the
  transaction, itself \<open>None\<close> for a contract creation. The test is
  \<open>tx && tx.to && allowedMintContracts.has(tx.to.toLowerCase())\<close>.
\<close>

definition isAllowed :: "string option option \<Rightarrow> bool" where
  "isAllowed tx =
     (case tx of
        None \<Rightarrow> False
      | Some None \<Rightarrow> False
      | Some (Some dest) \<Rightarrow> dest \<noteq> [] \<and> toLowerCase dest \<in> allowedMintContracts)"

text \<open>
  What the program writes with \<open>console.error\<close>: the \<open>catch\<close> of \<open>processLog\<close> writes the
  log and the exception it caught, the \<open>catch\<close> of the listener the exception that
  reached it.
\<close>

datatype console_line = ErrorProcessingLog Log error | ErrorProcessingLiveLog error

text \<open>The lines that a call of \<open>processLog\<close> that returns has written.\<close>

definition processLogConsole :: "ethers \<Rightarrow> Log \<Rightarrow> console_line list" where
  "processLogConsole lib lg =
     (case getAddress lib (log_address lg) of
        None \<Rightarrow> []
      | Some c \<Rightarrow>
          (case snd (tryBody lib lg (baseItem lg c)) of
             None \<Rightarrow> []
           | Some e \<Rightarrow> [ErrorProcessingLog lg e]))"

text \<open>
  The listener, given the answer of \<open>getTransaction\<close>: the new state and the lines written
  to the console. An exception of \<open>processLog\<close> is caught by the listener's own \<open>try\<close>,
  which writes a line and leaves the state as it is.
\<close>

definition listener ::
  "ethers \<Rightarrow> provider option \<Rightarrow> string option option \<Rightarrow> Log \<Rightarrow> session
     \<Rightarrow> session \<times> console_line list" where
  "listener lib httpProvider tx lg s =
     (if isAllowed tx then
        (case processLog lib lg of
           Inl e \<Rightarrow> (s, [ErrorProcessingLiveLog e])
         | Inr newItems \<Rightarrow>
             (if length newItems > 0 then processNewItems httpProvider newItems s else s,
              processLogConsole lib lg))
      else (s, []))"

section \<open>A live session as a sequence of events\<close>

text \<open>
  Between two \<open>await\<close>s the program runs without interruption, so a session is a sequence
  of steps, in any order: a call of \<open>processNewItems\<close>, or the completion of a metadata
  fetch for some address.
\<close>

datatype event =
  NewItems "MintItem list"
| MetaSettled string TokenType "string option" "string option" "int option"

fun step :: "provider option \<Rightarrow> session \<Rightarrow> event \<Rightarrow> session" where
  "step httpProvider s (NewItems newItems) = processNewItems httpProvider newItems s"
| "step httpProvider s (MetaSettled addr ty nameRes symbolRes decimalsRes) =
     enrichResolved addr (settledMeta ty nameRes symbolRes decimalsRes) s"

definition run :: "provider option \<Rightarrow> session \<Rightarrow> event list \<Rightarrow> session" where
  "run httpProvider s evs = foldl (step httpProvider) s evs"

fun itemsOf :: "event list \<Rightarrow> MintItem list" where
  "itemsOf [] = []"
| "itemsOf (NewItems newItems # evs) = newItems @ itemsOf evs"
| "itemsOf (MetaSettled addr ty nameRes symbolRes decimalsRes # evs) = itemsOf evs"

section \<open>An instance of the library interface\<close>

text \<open>
  A small instance of the interface, on which the theorems below are evaluated at
  concrete logs. It reads hexadecimal numbers and the head and tail layout of the
  contract ABI for the three shapes the program decodes. Its \<open>getAddress\<close> accepts the
  addresses whose forty digits are all decimal: the checksum of an address changes the
  case of letters only, so on these it is the identity.
\<close>

definition hexDigit :: "char \<Rightarrow> nat option" where
  "hexDigit c =
     map_of (zip ''0123456789abcdefABCDEF''
               [0, 1, 2, 3, 4, 5, 6, 7, 8, 9, 10, 11, 12, 13, 14, 15, 10, 11, 12, 13, 14, 15]) c"

fun hexValue :: "nat \<Rightarrow> string \<Rightarrow> nat option" where
  "hexValue acc [] = Some acc"
| "hexValue acc (c # cs) =
     (case hexDigit c of None \<Rightarrow> None | Some d \<Rightarrow> hexValue (16 * acc + d) cs)"

definition hexNumber :: "string \<Rightarrow> nat option" where
  "hexNumber s = (if take 2 s = ''0x'' then hexValue 0 (drop 2 s) else None)"

fun hexWords :: "nat \<Rightarrow> string \<Rightarrow> nat list option" where
  "hexWords 0 cs = Some []"
| "hexWords (Suc k) cs =
     (if length cs < 64 then Some []
      else (case hexValue 0 (take 64 cs) of
              None \<Rightarrow> None
            | Some w \<Rightarrow> map_option ((#) w) (hexWords k (drop 64 cs))))"

definition abiWords :: "string \<Rightarrow> nat list option" where
  "abiWords s = (if take 2 s = ''0x'' then hexWords (length s) (drop 2 s) else None)"

definition abiArray :: "nat list \<Rightarrow> nat \<Rightarrow> nat list option" where
  "abiArray ws off =
     (if off mod 32 = 0 \<and> off div 32 < length ws
         \<and> off div 32 + 1 + ws ! (off div 32) \<le> length ws
      then Some (take (ws ! (off div 32)) (drop (off div 32 + 1) ws))
      else None)"

definition plain_getAddress :: "string \<Rightarrow> string option" where
  "plain_getAddress s =
     (if length s = 42 \<and> take 2 s = ''0x'' \<and> list_all (\<lambda>c. c \<in> set ''0123456789'') (drop 2 s)
      then Some s else None)"

definition plain_decode_uint256 :: "string \<Rightarrow> nat option" where
  "plain_decode_uint256 s =
     (case abiWords s of
        None \<Rightarrow> None
      | Some ws \<Rightarrow> if length ws < 1 then None else Some (ws ! 0))"

definition plain_decode_pair :: "string \<Rightarrow> (nat \<times> nat) option" where
  "plain_decode_pair s =
     (case abiWords s of
        None \<Rightarrow> None
      | Some ws \<Rightarrow> if length ws < 2 then None else Some (ws ! 0, ws ! 1))"

definition plain_decode_arrays :: "string \<Rightarrow> (nat list \<times> nat list) option" where
  "plain_decode_arrays s =
     (case abiWords s of
        None \<Rightarrow> None
      | Some ws \<Rightarrow>
          if length ws < 2 then None
          else (case (abiArray ws (ws ! 0), abiArray ws (ws ! 1)) of
                  (Some ids, Some vals) \<Rightarrow> Some (ids, vals)
                | _ \<Rightarrow> None))"

definition plainEthers :: ethers where
  "plainEthers =
     \<lparr>getAddress = plain_getAddress, toBigInt = hexNumber,
      decode_uint256 = plain_decode_uint256, decode_pair = plain_decode_pair,
      decode_arrays = plain_decode_arrays\<rparr>"

text \<open>A 32-byte topic with the given last digits, and a log of the Transfer family.\<close>

definition topicOf :: "string \<Rightarrow> string" where
  "topicOf digits = ''0x'' @ replicate (64 - length digits) (CHR ''0'') @ digits"

definition transferLog :: "string list \<Rightarrow> string \<Rightarrow> Log" where
  "transferLog ts d =
     \<lparr>log_blockNumber = 100, log_transactionHash = ''0xabc'', log_index = 5,
      log_address = ''0x0000000000000000000000000000000000000721'',
      log_topics = ts, log_data = d\<rparr>"

section \<open>Notions used in the statements\<close>

text \<open>
  The order of the global log: \<open>a\<close> may stand before \<open>b\<close> when its block number is
  higher, or equal with a log index at least as high.
\<close>

definition precedes :: "MintItem \<Rightarrow> MintItem \<Rightarrow> bool" where
  "precedes a b =
     (blockNumber b < blockNumber a
      \<or> (blockNumber a = blockNumber b \<and> logIndex b \<le> logIndex a))"

text \<open>The item that the batch loop pushes at index \<open>i\<close>, with its two strings.\<close>

definition subItem :: "Log \<Rightarrow> string \<Rightarrow> string \<Rightarrow> nat \<Rightarrow> string \<Rightarrow> string \<Rightarrow> MintItem" where
  "subItem lg c recipient i tid amt =
     \<lparr>blockNumber = log_blockNumber lg, txHash = log_transactionHash lg,
      logIndex = of_int (log_index lg) + of_nat i * (1 / 1000), contract = c,
      to = recipient, type = ERC1155, tokenId = Some tid, amount = Some amt,
      timestamp = None\<rparr>"

text \<open>A TransferBatch log from the zero address with ids 1, 2, 3 and values 10, 20, 30.\<close>

definition batchLog :: Log where
  "batchLog =
     \<lparr>log_blockNumber = 100, log_transactionHash = ''0xabc'', log_index = 5,
      log_address = ''0x0000000000000000000000000000000000001155'',
      log_topics = [TRANSFER_BATCH_TOPIC, topicOf ''9'', ZERO_TOPIC, topicOf ''7''],
      log_data = ''0x000000000000000000000000000000000000000000000000000000000000004000000000000000000000000000000000000000000000000000000000000000c000000000000000000000000000000000000000000000000000000000000000030000000000000000000000000000000000000000000000000000000000000001000000000000000000000000000000000000000000000000000000000000000200000000000000000000000000000000000000000000000000000000000000030000000000000000000000000000000000000000000000000000000000000003000000000000000000000000000000000000000000000000000000000000000a0000000000000000000000000000000000000000000000000000000000000014000000000000000000000000000000000000000000000000000000000000001e''\<rparr>"

text \<open>The same log with a payload whose second array, [10], is shorter than the first.\<close>

definition shortValuesLog :: Log where
  "shortValuesLog = batchLog\<lparr>log_data := ''0x000000000000000000000000000000000000000000000000000000000000004000000000000000000000000000000000000000000000000000000000000000c000000000000000000000000000000000000000000000000000000000000000030000000000000000000000000000000000000000000000000000000000000001000000000000000000000000000000000000000000000000000000000000000200000000000000000000000000000000000000000000000000000000000000030000000000000000000000000000000000000000000000000000000000000001000000000000000000000000000000000000000000000000000000000000000a''\<rparr>"

text \<open>
  Comparison of two strings without regard to case, stated without \<open>toLowerCase\<close>: the
  strings have the same length and, position by position, the same character or the
  upper-case and lower-case forms of one letter.
\<close>

definition caseTable :: "(char \<times> char) list" where
  "caseTable = zip ''ABCDEFGHIJKLMNOPQRSTUVWXYZ'' ''abcdefghijklmnopqrstuvwxyz''"

definition sameLetter :: "char \<Rightarrow> char \<Rightarrow> bool" where
  "sameLetter x y = (x = y \<or> (x, y) \<in> set caseTable \<or> (y, x) \<in> set caseTable)"

definition equalIgnoringCase :: "string \<Rightarrow> string \<Rightarrow> bool" where
  "equalIgnoringCase a b = list_all2 sameLetter a b"

text \<open>The items of a contract, and the non-empty tokenIds among them.\<close>

definition mintedBy :: "string \<Rightarrow> MintItem list \<Rightarrow> MintItem list" where
  "mintedBy a items = filter (\<lambda>it. contract it = a) items"

definition seenTokenIds :: "string \<Rightarrow> MintItem list \<Rightarrow> string list" where
  "seenTokenIds a items =
     map (\<lambda>it. the (tokenId it)) (filter (\<lambda>it. contract it = a \<and> truthy (tokenId it)) items)"

text \<open>The two fields the comparator looks at.\<close>

definition sortKey :: "MintItem \<Rightarrow> int \<times> rat" where
  "sortKey it = (blockNumber it, logIndex it)"

text \<open>The same two fields negated, so that the order of the log is ascending on them.\<close>

definition descKey :: "MintItem \<Rightarrow> int \<times> rat" where
  "descKey it = (- blockNumber it, - logIndex it)"

text \<open>
  The count and the token set of a contract's summary, zero and empty when there is no
  summary, and the link between the stored \<open>uniqueTokens\<close> and the set.
\<close>

definition totalOf :: "session \<Rightarrow> string \<Rightarrow> nat" where
  "totalOf s a = (case summaries s a of None \<Rightarrow> 0 | Some c \<Rightarrow> totalMintEvents c)"

definition tokensOf :: "session \<Rightarrow> string \<Rightarrow> string set" where
  "tokensOf s a = (case summaries s a of None \<Rightarrow> {} | Some c \<Rightarrow> tokenIds c)"

definition counted :: "session \<Rightarrow> bool" where
  "counted s = (\<forall>a c. summaries s a = Some c \<longrightarrow> uniqueTokens c = card (tokenIds c))"

text \<open>An ERC-721 item of a contract at a block and log index, for concrete sessions.\<close>

definition nftItem :: "string \<Rightarrow> int \<Rightarrow> rat \<Rightarrow> string \<Rightarrow> MintItem" where
  "nftItem c bn li tid =
     \<lparr>blockNumber = bn, txHash = ''0xabc'', logIndex = li, contract = c,
      to = ''0x0000000000000000000000000000000000000007'', type = ERC721,
      tokenId = Some tid, amount = None, timestamp = None\<rparr>"

text \<open>
  What holds of the history of fetches: no address occurs twice, and every address in it
  has an entry in the cache.
\<close>

definition fetchInv :: "session \<Rightarrow> bool" where
  "fetchInv s =
     (distinct (map fst (fetches s))
      \<and> (\<forall>a\<in>set (map fst (fetches s)). metaCache s a \<noteq> None))"

section \<open>Properties of processLog\<close>

lemma batchLoop_error: "snd (batchLoop base r ids vals i res) \<noteq> Some AbiDecodeError"
  by (induction base r ids vals i res rule: batchLoop.induct)
     (subst batchLoop.simps, simp)

text \<open>
  C1 (as amended). A log whose first topic is the Transfer signature and whose second
  topic is the zero sentinel, from a valid contract address: with exactly four topics
  it is decoded as one ERC-721 mint whose tokenId is the fourth topic; with three topics,
  or any other number from three on, as one ERC-20 mint whose amount is the payload
  (each provided the recipient topic and the number decode); with fewer than three
  topics, two included, no item is produced.
\<close>

theorem processLog_transfer_mint:
  assumes "getAddress lib (log_address lg) = Some c"
    and "topicAt (log_topics lg) 0 = Some TRANSFER_TOPIC"
    and "topicAt (log_topics lg) 1 = Some ZERO_TOPIC"
  shows "(length (log_topics lg) = 4 \<longrightarrow>
            (\<forall>recipient n.
               getAddress lib (''0x'' @ drop 26 (log_topics lg ! 2)) = Some recipient \<longrightarrow>
               toBigInt lib (log_topics lg ! 3) = Some n \<longrightarrow>
               processLog lib lg =
                 Inr [\<lparr>blockNumber = log_blockNumber lg, txHash = log_transactionHash lg,
                       logIndex = of_int (log_index lg), contract = c, to = recipient,
                       type = ERC721, tokenId = Some (toString n), amount = None,
                       timestamp = None\<rparr>]))
       \<and> (3 \<le> length (log_topics lg) \<and> length (log_topics lg) \<noteq> 4 \<longrightarrow>
            (\<forall>recipient a.
               getAddress lib (''0x'' @ drop 26 (log_topics lg ! 2)) = Some recipient \<longrightarrow>
               decode_uint256 lib (log_data lg) = Some a \<longrightarrow>
               processLog lib lg =
                 Inr [\<lparr>blockNumber = log_blockNumber lg, txHash = log_transactionHash lg,
                       logIndex = of_int (log_index lg), contract = c, to = recipient,
                       type = ERC20, tokenId = None, amount = Some (toString a),
                       timestamp = None\<rparr>]))
       \<and> (length (log_topics lg) < 3 \<longrightarrow> processLog lib lg = Inr [])"
  using assms
  by (auto simp: processLog_def tryBody_def topicAddress_def topicAt_def baseItem_def Let_def)


theorem processLog_transfer_mint_witness:
  "processLog plainEthers
     (transferLog [TRANSFER_TOPIC, ZERO_TOPIC, topicOf ''7'', topicOf ''2a''] ''0x'')
   = Inr [\<lparr>blockNumber = 100, txHash = ''0xabc'', logIndex = 5,
           contract = ''0x0000000000000000000000000000000000000721'',
           to = ''0x0000000000000000000000000000000000000007'',
           type = ERC721, tokenId = Some ''42'', amount = None, timestamp = None\<rparr>]"
proof -
  let ?lg = "transferLog [TRANSFER_TOPIC, ZERO_TOPIC, topicOf ''7'', topicOf ''2a''] ''0x''"
  have a: "getAddress plainEthers (log_address ?lg)
             = Some ''0x0000000000000000000000000000000000000721''"
    by code_simp
  have t0: "topicAt (log_topics ?lg) 0 = Some TRANSFER_TOPIC"
    by (simp add: transferLog_def topicAt_def)
  have t1: "topicAt (log_topics ?lg) 1 = Some ZERO_TOPIC"
    by (simp add: transferLog_def topicAt_def)
  have n: "length (log_topics ?lg) = 4"
    by (simp add: transferLog_def)
  have r: "getAddress plainEthers (''0x'' @ drop 26 (log_topics ?lg ! 2))
             = Some ''0x0000000000000000000000000000000000000007''"
    by code_simp
  have b: "toBigInt plainEthers (log_topics ?lg ! 3) = Some 42"
    by code_simp
  have s: "toString 42 = ''42''"
    by code_simp
  from processLog_transfer_mint [OF a t0 t1] n r b
  have "processLog plainEthers ?lg =
          Inr [\<lparr>blockNumber = log_blockNumber ?lg, txHash = log_transactionHash ?lg,
                logIndex = of_int (log_index ?lg),
                contract = ''0x0000000000000000000000000000000000000721'',
                to = ''0x0000000000000000000000000000000000000007'',
                type = ERC721, tokenId = Some (toString 42), amount = None,
                timestamp = None\<rparr>]"
    by blast
  then show ?thesis
    by (simp add: s transferLog_def)
qed

text \<open>
  C1 as stated fails: a Transfer log from the zero address with exactly two topics and a
  payload that decodes to 5 yields no item (reading the recipient from the missing third
  topic throws), and the same log with three topics yields an ERC-20 mint.
\<close>

theorem processLog_two_topics_counterexample:
  "length (log_topics (transferLog [TRANSFER_TOPIC, ZERO_TOPIC] (topicOf ''5''))) = 2
   \<and> decode_uint256 plainEthers (log_data (transferLog [TRANSFER_TOPIC, ZERO_TOPIC] (topicOf ''5'')))
       = Some 5
   \<and> processLog plainEthers (transferLog [TRANSFER_TOPIC, ZERO_TOPIC] (topicOf ''5'')) = Inr []
   \<and> length (log_topics (transferLog [TRANSFER_TOPIC, ZERO_TOPIC, topicOf ''7''] (topicOf ''5''))) = 3
   \<and> processLog plainEthers (transferLog [TRANSFER_TOPIC, ZERO_TOPIC, topicOf ''7''] (topicOf ''5''))
       = Inr [\<lparr>blockNumber = 100, txHash = ''0xabc'', logIndex = 5,
               contract = ''0x0000000000000000000000000000000000000721'',
               to = ''0x0000000000000000000000000000000000000007'',
               type = ERC20, tokenId = None, amount = Some ''5'', timestamp = None\<rparr>]"
  by code_simp

text \<open>
  Where the exception that leaves the \<open>try\<close> block is the ABI decoder's, on a log from a
  valid contract address, \<open>processLog\<close> returns the empty array.
\<close>

lemma processLog_decode_failure:
  assumes "getAddress lib (log_address lg) = Some c"
    and "snd (tryBody lib lg (baseItem lg c)) = Some AbiDecodeError"
  shows "processLog lib lg = Inr []"
proof -
  have "fst (tryBody lib lg (baseItem lg c)) = []"
    using assms(2) batchLoop_error
    by (auto simp: tryBody_def Let_def split: if_splits sum.splits option.splits prod.splits)
  then show ?thesis
    using assms(1) by (simp add: processLog_def)
qed

text \<open>
  C2 fails on the code. A TransferBatch payload that decodes to ids 1, 2, 3 and the
  single value 10 is malformed, the two arrays being of different lengths. The loop
  pushes the first item and throws at \<open>values[1]\<close>; the same \<open>catch\<close> that returns the
  empty array on the other paths returns here the one item pushed, and the listener
  ingests it into the global log.
\<close>

theorem processLog_short_values:
  "decode_arrays plainEthers (log_data shortValuesLog) = Some ([1, 2, 3], [10])
   \<and> snd (tryBody plainEthers shortValuesLog
            (baseItem shortValuesLog ''0x0000000000000000000000000000000000001155''))
       = Some RangeError
   \<and> processLog plainEthers shortValuesLog =
       Inr [subItem batchLog ''0x0000000000000000000000000000000000001155''
              ''0x0000000000000000000000000000000000000007'' 0 ''1'' ''10'']
   \<and> mints (fst (listener plainEthers None
                    (Some (Some ''0x00000000009a1E02f00E280dcfA4C81c55724212''))
                    shortValuesLog startLive))
       = [subItem batchLog ''0x0000000000000000000000000000000000001155''
            ''0x0000000000000000000000000000000000000007'' 0 ''1'' ''10'']"
  by code_simp

lemma batchLoop_three:
  "batchLoop base r [a1, a2, a3] [b1, b2, b3] 0 [] =
     ([base\<lparr>logIndex := logIndex base + of_nat 0 * (1 / 1000), to := r, type := ERC1155,
             tokenId := Some (toString a1), amount := Some (toString b1)\<rparr>,
       base\<lparr>logIndex := logIndex base + of_nat 1 * (1 / 1000), to := r, type := ERC1155,
             tokenId := Some (toString a2), amount := Some (toString b2)\<rparr>,
       base\<lparr>logIndex := logIndex base + of_nat 2 * (1 / 1000), to := r, type := ERC1155,
             tokenId := Some (toString a3), amount := Some (toString b3)\<rparr>], None)"
  apply (subst batchLoop.simps, simp)
  apply (subst batchLoop.simps, simp)
  apply (subst batchLoop.simps, simp)
  apply (subst batchLoop.simps, simp)
  done

lemma toString_small:
  "toString (Suc 0) = ''1''" "toString 2 = ''2''" "toString 3 = ''3''"
  "toString 10 = ''10''" "toString 20 = ''20''" "toString 30 = ''30''"
  by code_simp+

text \<open>
  C9 (as amended). A TransferBatch log from the zero address whose payload decodes to
  ids 1, 2, 3 and values 10, 20, 30 yields exactly three items that share block number,
  transaction hash, contract and recipient, with tokenIds "1", "2", "3" and amounts "10",
  "20", "30" in that order; their log indexes start at the log's own, increase strictly
  and stay below the next integer. The sort of the aggregator, being descending, puts
  them in the reverse of the order of emission.
\<close>

theorem processLog_batch_three:
  assumes "getAddress lib (log_address lg) = Some c"
    and "topicAt (log_topics lg) 0 = Some TRANSFER_BATCH_TOPIC"
    and "topicAt (log_topics lg) 2 = Some ZERO_TOPIC"
    and "topicAt (log_topics lg) 3 = Some t3"
    and "getAddress lib (''0x'' @ drop 26 t3) = Some recipient"
    and "decode_arrays lib (log_data lg) = Some ([1, 2, 3], [10, 20, 30])"
  shows "processLog lib lg =
           Inr [subItem lg c recipient 0 ''1'' ''10'', subItem lg c recipient 1 ''2'' ''20'',
                subItem lg c recipient 2 ''3'' ''30'']
         \<and> logIndex (subItem lg c recipient 0 ''1'' ''10'') = of_int (log_index lg)
         \<and> logIndex (subItem lg c recipient 0 ''1'' ''10'')
             < logIndex (subItem lg c recipient 1 ''2'' ''20'')
         \<and> logIndex (subItem lg c recipient 1 ''2'' ''20'')
             < logIndex (subItem lg c recipient 2 ''3'' ''30'')
         \<and> logIndex (subItem lg c recipient 2 ''3'' ''30'') < of_int (log_index lg) + 1
         \<and> sortBy mintCompare
              [subItem lg c recipient 0 ''1'' ''10'', subItem lg c recipient 1 ''2'' ''20'',
               subItem lg c recipient 2 ''3'' ''30'']
            = [subItem lg c recipient 2 ''3'' ''30'', subItem lg c recipient 1 ''2'' ''20'',
               subItem lg c recipient 0 ''1'' ''10'']"
proof -
  have neq: "TRANSFER_BATCH_TOPIC \<noteq> TRANSFER_TOPIC" "TRANSFER_BATCH_TOPIC \<noteq> TRANSFER_SINGLE_TOPIC"
    by (simp_all add: TRANSFER_TOPIC_def TRANSFER_SINGLE_TOPIC_def TRANSFER_BATCH_TOPIC_def)
  have "processLog lib lg =
           Inr [subItem lg c recipient 0 ''1'' ''10'', subItem lg c recipient 1 ''2'' ''20'',
                subItem lg c recipient 2 ''3'' ''30'']"
    using assms neq
    by (simp add: processLog_def tryBody_def topicAddress_def Let_def batchLoop_three
          toString_small baseItem_def subItem_def)
  moreover have "sortBy mintCompare
              [subItem lg c recipient 0 ''1'' ''10'', subItem lg c recipient 1 ''2'' ''20'',
               subItem lg c recipient 2 ''3'' ''30'']
            = [subItem lg c recipient 2 ''3'' ''30'', subItem lg c recipient 1 ''2'' ''20'',
               subItem lg c recipient 0 ''1'' ''10'']"
    by (simp add: sortBy_def mintCompare_def subItem_def)
  ultimately show ?thesis
    by (simp add: subItem_def)
qed

theorem processLog_batch_three_witness:
  "processLog plainEthers batchLog =
     Inr [subItem batchLog ''0x0000000000000000000000000000000000001155''
            ''0x0000000000000000000000000000000000000007'' 0 ''1'' ''10'',
          subItem batchLog ''0x0000000000000000000000000000000000001155''
            ''0x0000000000000000000000000000000000000007'' 1 ''2'' ''20'',
          subItem batchLog ''0x0000000000000000000000000000000000001155''
            ''0x0000000000000000000000000000000000000007'' 2 ''3'' ''30'']"
proof -
  have a: "getAddress plainEthers (log_address batchLog)
             = Some ''0x0000000000000000000000000000000000001155''"
    by code_simp
  have t0: "topicAt (log_topics batchLog) 0 = Some TRANSFER_BATCH_TOPIC"
    by (simp add: batchLog_def topicAt_def)
  have t2: "topicAt (log_topics batchLog) 2 = Some ZERO_TOPIC"
    by (simp add: batchLog_def topicAt_def)
  have t3: "topicAt (log_topics batchLog) 3 = Some (topicOf ''7'')"
    by (simp add: batchLog_def topicAt_def)
  have r: "getAddress plainEthers (''0x'' @ drop 26 (topicOf ''7''))
             = Some ''0x0000000000000000000000000000000000000007''"
    by code_simp
  have d: "decode_arrays plainEthers (log_data batchLog) = Some ([1, 2, 3], [10, 20, 30])"
    by code_simp
  show ?thesis
    using processLog_batch_three [OF a t0 t2 t3 r d] by simp
qed

text \<open>
  C9 as stated fails in its last part: after \<open>processNewItems\<close> on the three items of that
  log the global log holds them with tokenIds "3", "2", "1", not in the order of emission.
\<close>

theorem batch_sort_order_counterexample:
  "map tokenId (mints (processNewItems None
      (case processLog plainEthers batchLog of Inl e \<Rightarrow> [] | Inr items \<Rightarrow> items) startLive))
   = [Some ''3'', Some ''2'', Some ''1'']"
  by code_simp

section \<open>Properties of the sort\<close>

lemma mintCompare_le: "mintCompare a b \<le> 0 \<longleftrightarrow> precedes a b"
  by (auto simp: mintCompare_def precedes_def)

lemma precedes_total: "\<not> precedes a b \<Longrightarrow> precedes b a"
  by (auto simp: precedes_def)

lemma precedes_trans: "precedes a b \<Longrightarrow> precedes b c \<Longrightarrow> precedes a c"
  by (auto simp: precedes_def)

lemma set_insertBy: "set (insertBy cmp x xs) = insert x (set xs)"
  by (induction xs) auto

lemma mset_insertBy: "mset (insertBy cmp x xs) = add_mset x (mset xs)"
  by (induction xs) auto

lemma mset_sortBy: "mset (sortBy cmp xs) = mset xs"
  by (induction xs) (simp_all add: sortBy_def mset_insertBy)

lemma sorted_insertBy:
  "sorted_wrt precedes xs \<Longrightarrow> sorted_wrt precedes (insertBy mintCompare x xs)"
proof (induction xs)
  case Nil
  then show ?case by simp
next
  case (Cons y ys)
  show ?case
  proof (cases "precedes x y")
    case True
    then have "\<forall>z\<in>set ys. precedes x z"
      using Cons.prems precedes_trans by auto
    with True Cons.prems show ?thesis
      by (simp add: mintCompare_le)
  next
    case False
    then have "precedes y x" by (rule precedes_total)
    with False Cons show ?thesis
      by (auto simp: mintCompare_le set_insertBy)
  qed
qed

lemma sorted_sortBy: "sorted_wrt precedes (sortBy mintCompare xs)"
  by (induction xs) (simp_all add: sortBy_def sorted_insertBy)

lemma mints_processNewItems:
  "newItems \<noteq> [] \<Longrightarrow>
     mints (processNewItems hp newItems s)
       = sortBy mintCompare (map (stamp hp) newItems @ mints (foldl (ingestItem hp) s newItems))"
  by (simp add: processNewItems_def Let_def)

lemma mints_upsertSummary: "mints (upsertSummary it s) = mints s"
  by (simp add: upsertSummary_def Let_def)

lemma mints_enrichCollection: "mints (enrichCollection hp a ty s) = mints s"
  by (simp add: enrichCollection_def)

lemma mints_ingestItem: "mints (ingestItem hp s it) = mints s"
  by (simp add: ingestItem_def Let_def mints_upsertSummary mints_enrichCollection)

lemma mints_ingestItems: "mints (foldl (ingestItem hp) s xs) = mints s"
  by (induction xs arbitrary: s) (simp_all add: mints_ingestItem)

text \<open>
  C6. After \<open>processNewItems\<close> on a non-empty array, whatever the log held before, the
  global log is in order: block number descending, and within a block log index
  descending, the fractional indexes of batch sub-items included. It holds the new items,
  with their timestamps, and the items it held before.
\<close>

theorem mints_sorted_after_ingest:
  assumes "newItems \<noteq> []"
  shows "sorted_wrt precedes (mints (processNewItems httpProvider newItems s))
         \<and> mset (mints (processNewItems httpProvider newItems s))
             = mset (map (stamp httpProvider) newItems) + mset (mints s)"
  using assms
  by (simp add: mints_processNewItems mints_ingestItems sorted_sortBy mset_sortBy)

theorem mints_sorted_after_ingest_witness:
  "sorted_wrt precedes
     (mints (processNewItems None [subItem batchLog ''c'' ''r'' 0 ''1'' ''10'']
        (startLive\<lparr>mints := [subItem batchLog ''c'' ''r'' 1 ''2'' ''20'',
                              subItem batchLog ''c'' ''r'' 2 ''3'' ''30'']\<rparr>)))"
proof -
  have ne: "[subItem batchLog ''c'' ''r'' 0 ''1'' ''10''] \<noteq> []"
    by simp
  show ?thesis
    using mints_sorted_after_ingest [OF ne] by simp
qed

section \<open>Properties of the summaries\<close>

lemma summaries_enrichCollection: "summaries (enrichCollection hp a ty s) = summaries s"
  by (simp add: enrichCollection_def)

lemma summaries_ingestItem: "summaries (ingestItem hp s it) = summaries (upsertSummary it s)"
  by (simp add: ingestItem_def Let_def summaries_enrichCollection)

lemma summaries_upsert_other:
  "contract it \<noteq> a \<Longrightarrow> summaries (upsertSummary it s) a = summaries s a"
  by (simp add: upsertSummary_def Let_def)

lemma summaries_upsert_Some:
  "summaries s (contract it) = Some c \<Longrightarrow>
     summaries (upsertSummary it s) (contract it) =
       Some (c\<lparr>tokenIds := (if truthy (tokenId it) then insert (the (tokenId it)) (tokenIds c)
                             else tokenIds c),
               uniqueTokens := card (if truthy (tokenId it)
                                     then insert (the (tokenId it)) (tokenIds c)
                                     else tokenIds c),
               totalMintEvents := totalMintEvents c + 1\<rparr>)"
  by (simp add: upsertSummary_def Let_def)

lemma summaries_upsert_None:
  "summaries s (contract it) = None \<Longrightarrow>
     summaries (upsertSummary it s) (contract it) =
       Some \<lparr>name = name (cached s (contract it)), symbol = symbol (cached s (contract it)),
             decimals = decimals (cached s (contract it)),
             address = contract it, summaryType = type it, totalMintEvents = 1,
             uniqueTokens = card (if truthy (tokenId it) then {the (tokenId it)} else {}),
             tokenIds = (if truthy (tokenId it) then {the (tokenId it)} else {})\<rparr>"
  by (simp add: upsertSummary_def Let_def)

lemma present_ingestItem:
  "summaries (ingestItem hp s it) a \<noteq> None \<longleftrightarrow> summaries s a \<noteq> None \<or> contract it = a"
  by (simp add: summaries_ingestItem upsertSummary_def Let_def)

lemma totalOf_ingestItem:
  "totalOf (ingestItem hp s it) a = totalOf s a + (if contract it = a then 1 else 0)"
  by (simp add: totalOf_def summaries_ingestItem upsertSummary_def Let_def split: option.splits)

lemma tokensOf_ingestItem:
  "tokensOf (ingestItem hp s it) a =
     tokensOf s a \<union> (if contract it = a \<and> truthy (tokenId it) then {the (tokenId it)} else {})"
  by (simp add: tokensOf_def summaries_ingestItem upsertSummary_def Let_def split: option.splits)

lemma counted_ingestItem: "counted s \<Longrightarrow> counted (ingestItem hp s it)"
  by (auto simp: counted_def summaries_ingestItem upsertSummary_def Let_def
           split: option.splits if_splits)

lemma present_ingestItems:
  "summaries (foldl (ingestItem hp) s xs) a \<noteq> None
     \<longleftrightarrow> summaries s a \<noteq> None \<or> mintedBy a xs \<noteq> []"
proof (induction xs arbitrary: s)
  case Nil
  then show ?case by (simp add: mintedBy_def)
next
  case (Cons x xs)
  show ?case
    using Cons.IH [of "ingestItem hp s x"] present_ingestItem [of hp s x a]
    by (auto simp: mintedBy_def)
qed

lemma totalOf_ingestItems:
  "totalOf (foldl (ingestItem hp) s xs) a = totalOf s a + length (mintedBy a xs)"
  by (induction xs arbitrary: s) (simp_all add: totalOf_ingestItem mintedBy_def)

lemma tokensOf_ingestItems:
  "tokensOf (foldl (ingestItem hp) s xs) a = tokensOf s a \<union> set (seenTokenIds a xs)"
  by (induction xs arbitrary: s) (auto simp: tokensOf_ingestItem seenTokenIds_def)

lemma counted_ingestItems: "counted s \<Longrightarrow> counted (foldl (ingestItem hp) s xs)"
  by (induction xs arbitrary: s) (simp_all add: counted_ingestItem)

lemma summaries_processNewItems:
  "summaries (processNewItems hp xs s) = summaries (foldl (ingestItem hp) s xs)"
  by (cases xs) (simp_all add: processNewItems_def Let_def)

lemma summaries_enrichResolved_other:
  "b \<noteq> a \<Longrightarrow> summaries (enrichResolved a meta s) b = summaries s b"
  by (simp add: enrichResolved_def split: option.splits)

lemma summaries_enrichResolved_Some:
  "summaries s a = Some c \<Longrightarrow>
     summaries (enrichResolved a meta s) a =
       Some (c\<lparr>name := name meta, symbol := symbol meta, decimals := decimals meta\<rparr>)"
  by (simp add: enrichResolved_def)

lemma summaries_enrichResolved_None:
  "summaries s a = None \<Longrightarrow> summaries (enrichResolved a meta s) = summaries s"
  by (simp add: enrichResolved_def)

lemma present_enrichResolved:
  "summaries (enrichResolved a meta s) b \<noteq> None \<longleftrightarrow> summaries s b \<noteq> None"
  by (simp add: enrichResolved_def split: option.splits)

lemma totalOf_enrichResolved: "totalOf (enrichResolved a meta s) b = totalOf s b"
  by (simp add: totalOf_def enrichResolved_def split: option.splits)

lemma tokensOf_enrichResolved: "tokensOf (enrichResolved a meta s) b = tokensOf s b"
  by (simp add: tokensOf_def enrichResolved_def split: option.splits)

lemma counted_enrichResolved: "counted s \<Longrightarrow> counted (enrichResolved a meta s)"
  by (auto simp: counted_def enrichResolved_def split: option.splits if_splits)

lemma present_run:
  "summaries (run hp s evs) a \<noteq> None
     \<longleftrightarrow> summaries s a \<noteq> None \<or> mintedBy a (itemsOf evs) \<noteq> []"
proof (induction evs arbitrary: s)
  case Nil
  then show ?case by (simp add: run_def mintedBy_def)
next
  case (Cons ev evs)
  show ?case
  proof (cases ev)
    case (NewItems xs)
    then show ?thesis
      using Cons.IH [of "processNewItems hp xs s"]
        present_ingestItems [of hp s xs a]
      by (auto simp: run_def summaries_processNewItems mintedBy_def)
  next
    case (MetaSettled addr ty n sy d)
    then show ?thesis
      using Cons.IH [of "enrichResolved addr (settledMeta ty n sy d) s"]
        present_enrichResolved [of addr _ s a]
      by (simp add: run_def)
  qed
qed

lemma totalOf_processNewItems:
  "totalOf (processNewItems hp xs s) a = totalOf s a + length (mintedBy a xs)"
  using totalOf_ingestItems [of hp s xs a]
  by (simp add: totalOf_def summaries_processNewItems)

lemma tokensOf_processNewItems:
  "tokensOf (processNewItems hp xs s) a = tokensOf s a \<union> set (seenTokenIds a xs)"
  using tokensOf_ingestItems [of hp s xs a]
  by (simp add: tokensOf_def summaries_processNewItems)

lemma counted_processNewItems: "counted s \<Longrightarrow> counted (processNewItems hp xs s)"
  using counted_ingestItems [of s hp xs]
  by (simp add: counted_def summaries_processNewItems)

lemma totalOf_run:
  "totalOf (run hp s evs) a = totalOf s a + length (mintedBy a (itemsOf evs))"
proof (induction evs arbitrary: s)
  case Nil
  then show ?case by (simp add: run_def mintedBy_def)
next
  case (Cons ev evs)
  then show ?case
    by (cases ev)
       (simp_all add: run_def totalOf_processNewItems totalOf_enrichResolved mintedBy_def)
qed

lemma tokensOf_run:
  "tokensOf (run hp s evs) a = tokensOf s a \<union> set (seenTokenIds a (itemsOf evs))"
proof (induction evs arbitrary: s)
  case Nil
  then show ?case by (simp add: run_def seenTokenIds_def)
next
  case (Cons ev evs)
  then show ?case
    by (cases ev)
       (auto simp: run_def tokensOf_processNewItems tokensOf_enrichResolved seenTokenIds_def)
qed

lemma counted_run: "counted s \<Longrightarrow> counted (run hp s evs)"
proof (induction evs arbitrary: s)
  case Nil
  then show ?case by (simp add: run_def)
next
  case (Cons ev evs)
  then show ?case
    by (cases ev) (simp_all add: run_def counted_processNewItems counted_enrichResolved)
qed

lemma counted_startLive: "counted startLive"
  by (simp add: counted_def startLive_def)

lemma summary_of_session:
  "(summaries (run hp startLive evs) a = None \<longleftrightarrow> mintedBy a (itemsOf evs) = [])
   \<and> (\<forall>c. summaries (run hp startLive evs) a = Some c \<longrightarrow>
          totalMintEvents c = length (mintedBy a (itemsOf evs))
          \<and> tokenIds c = set (seenTokenIds a (itemsOf evs))
          \<and> uniqueTokens c = card (set (seenTokenIds a (itemsOf evs))))"
proof -
  have p: "summaries (run hp startLive evs) a = None \<longleftrightarrow> mintedBy a (itemsOf evs) = []"
  proof -
    have "summaries startLive a = None" by (simp add: startLive_def)
    then show ?thesis using present_run [of hp startLive evs a] by auto
  qed
  have t: "totalOf (run hp startLive evs) a = length (mintedBy a (itemsOf evs))"
    using totalOf_run [of hp startLive evs a] by (simp add: totalOf_def startLive_def)
  have k: "tokensOf (run hp startLive evs) a = set (seenTokenIds a (itemsOf evs))"
    using tokensOf_run [of hp startLive evs a] by (simp add: tokensOf_def startLive_def)
  have c: "counted (run hp startLive evs)"
    by (rule counted_run [OF counted_startLive])
  show ?thesis
    using p t k c by (auto simp: totalOf_def tokensOf_def counted_def)
qed

text \<open>
  C3. In a live session, after any sequence of \<open>processNewItems\<close> calls and metadata
  completions, a contract has a summary exactly when some ingested item is its own;
  \<open>totalMintEvents\<close> is the number of its ingested items and \<open>uniqueTokens\<close> the number of
  distinct non-empty tokenIds among them. Ingesting the same items twice from the start
  of a session doubles \<open>totalMintEvents\<close> and leaves \<open>uniqueTokens\<close> as it was.
\<close>

theorem summary_counts:
  "(summaries (run httpProvider startLive evs) a = None
      \<longleftrightarrow> mintedBy a (itemsOf evs) = [])
   \<and> (\<forall>c. summaries (run httpProvider startLive evs) a = Some c \<longrightarrow>
          totalMintEvents c = length (mintedBy a (itemsOf evs))
          \<and> uniqueTokens c = card (set (seenTokenIds a (itemsOf evs))))
   \<and> (\<forall>c1. summaries (processNewItems httpProvider xs startLive) a = Some c1 \<longrightarrow>
          (\<exists>c2. summaries (processNewItems httpProvider xs
                             (processNewItems httpProvider xs startLive)) a = Some c2
                \<and> totalMintEvents c2 = 2 * totalMintEvents c1
                \<and> uniqueTokens c2 = uniqueTokens c1))"
proof -
  have once: "processNewItems httpProvider xs startLive = run httpProvider startLive [NewItems xs]"
    by (simp add: run_def)
  have twice: "processNewItems httpProvider xs (processNewItems httpProvider xs startLive)
                 = run httpProvider startLive [NewItems xs, NewItems xs]"
    by (simp add: run_def)
  have s1: "\<forall>c. summaries (processNewItems httpProvider xs startLive) a = Some c \<longrightarrow>
          totalMintEvents c = length (mintedBy a xs)
          \<and> uniqueTokens c = card (set (seenTokenIds a xs))"
    using summary_of_session [of httpProvider "[NewItems xs]" a] unfolding once by simp
  have s2: "(summaries (processNewItems httpProvider xs (processNewItems httpProvider xs startLive)) a = None
             \<longleftrightarrow> mintedBy a xs = [])
       \<and> (\<forall>c. summaries (processNewItems httpProvider xs
                             (processNewItems httpProvider xs startLive)) a = Some c \<longrightarrow>
          totalMintEvents c = 2 * length (mintedBy a xs)
          \<and> uniqueTokens c = card (set (seenTokenIds a xs)))"
    using summary_of_session [of httpProvider "[NewItems xs, NewItems xs]" a] unfolding twice
    by (simp add: mintedBy_def seenTokenIds_def)
  have s0: "summaries (processNewItems httpProvider xs startLive) a = None \<longleftrightarrow> mintedBy a xs = []"
    using summary_of_session [of httpProvider "[NewItems xs]" a] unfolding once by simp
  have "\<forall>c1. summaries (processNewItems httpProvider xs startLive) a = Some c1 \<longrightarrow>
          (\<exists>c2. summaries (processNewItems httpProvider xs
                             (processNewItems httpProvider xs startLive)) a = Some c2
                \<and> totalMintEvents c2 = 2 * totalMintEvents c1
                \<and> uniqueTokens c2 = uniqueTokens c1)"
  proof (intro allI impI)
    fix c1 assume h: "summaries (processNewItems httpProvider xs startLive) a = Some c1"
    then have "mintedBy a xs \<noteq> []" using s0 by auto
    then obtain c2 where c2: "summaries (processNewItems httpProvider xs
                             (processNewItems httpProvider xs startLive)) a = Some c2"
      using s2 by auto
    show "\<exists>c2. summaries (processNewItems httpProvider xs
                             (processNewItems httpProvider xs startLive)) a = Some c2
                \<and> totalMintEvents c2 = 2 * totalMintEvents c1
                \<and> uniqueTokens c2 = uniqueTokens c1"
      using c2 h s1 s2 by auto
  qed
  then show ?thesis
    using summary_of_session [of httpProvider evs a] by blast
qed

theorem summary_counts_witness:
  "map_option totalMintEvents
     (summaries (run None startLive [NewItems [nftItem ''A'' 1 0 ''7''], NewItems [nftItem ''A'' 2 0 ''7'']])
        ''A'') = Some 2
   \<and> map_option uniqueTokens
     (summaries (run None startLive [NewItems [nftItem ''A'' 1 0 ''7''], NewItems [nftItem ''A'' 2 0 ''7'']])
        ''A'') = Some 1"
proof -
  let ?evs = "[NewItems [nftItem ''A'' 1 0 ''7''], NewItems [nftItem ''A'' 2 0 ''7'']]"
  have m: "length (mintedBy ''A'' (itemsOf ?evs)) = 2"
    by (simp add: mintedBy_def nftItem_def)
  have k: "card (set (seenTokenIds ''A'' (itemsOf ?evs))) = 1"
    by (simp add: seenTokenIds_def nftItem_def truthy_def)
  have ne: "mintedBy ''A'' (itemsOf ?evs) \<noteq> []"
    using m by auto
  from summary_counts [of None ?evs "''A''" "[]"] ne
  obtain c where c: "summaries (run None startLive ?evs) ''A'' = Some c"
    by auto
  with summary_counts [of None ?evs "''A''" "[]"] m k
  have "totalMintEvents c = 2 \<and> uniqueTokens c = 1"
    by (metis (no_types, lifting))
  with c show ?thesis by simp
qed

section \<open>Independence of the order of arrival\<close>

lemma mints_enrichResolved: "mints (enrichResolved a meta s) = mints s"
  by (simp add: enrichResolved_def)

lemma mset_mints_processNewItems:
  "mset (mints (processNewItems hp xs s)) = mset (map (stamp hp) xs) + mset (mints s)"
  by (cases xs)
     (simp_all add: processNewItems_def Let_def mset_sortBy mints_ingestItems
        del: foldl_Cons)

lemma sorted_mints_processNewItems:
  "sorted_wrt precedes (mints s) \<Longrightarrow> sorted_wrt precedes (mints (processNewItems hp xs s))"
  by (cases xs)
     (simp_all add: processNewItems_def Let_def sorted_sortBy del: foldl_Cons)

lemma mset_mints_run:
  "mset (mints (run hp s evs)) = mset (map (stamp hp) (itemsOf evs)) + mset (mints s)"
proof (induction evs arbitrary: s)
  case Nil
  then show ?case by (simp add: run_def)
next
  case (Cons ev evs)
  then show ?case
    by (cases ev) (simp_all add: run_def mset_mints_processNewItems mints_enrichResolved)
qed

lemma sorted_mints_run:
  "sorted_wrt precedes (mints s) \<Longrightarrow> sorted_wrt precedes (mints (run hp s evs))"
proof (induction evs arbitrary: s)
  case Nil
  then show ?case by (simp add: run_def)
next
  case (Cons ev evs)
  then show ?case
    by (cases ev) (simp_all add: run_def sorted_mints_processNewItems mints_enrichResolved)
qed

lemma sortKey_stamp: "sortKey (stamp hp it) = sortKey it"
  by (simp add: sortKey_def stamp_def)

lemma descKey_less:
  "precedes a b \<Longrightarrow> sortKey a \<noteq> sortKey b \<Longrightarrow> descKey a < descKey b"
  by (auto simp: precedes_def sortKey_def descKey_def less_prod_def)

lemma descKey_eq: "descKey a = descKey b \<longleftrightarrow> sortKey a = sortKey b"
  by (auto simp: sortKey_def descKey_def)

lemma strict_sorted_descKey:
  "sorted_wrt precedes xs \<Longrightarrow> distinct (map sortKey xs) \<Longrightarrow> sorted_wrt (<) (map descKey xs)"
proof (induction xs)
  case Nil
  then show ?case by simp
next
  case (Cons x xs)
  have "\<forall>y\<in>set xs. descKey x < descKey y"
  proof
    fix y assume y: "y \<in> set xs"
    then have "precedes x y" using Cons.prems(1) by simp
    moreover have "sortKey x \<noteq> sortKey y" using Cons.prems(2) y by auto
    ultimately show "descKey x < descKey y" by (rule descKey_less)
  qed
  with Cons show ?case by simp
qed

lemma sorted_unique:
  assumes "sorted_wrt precedes xs" and "sorted_wrt precedes ys"
    and "mset xs = mset ys" and "distinct (map sortKey xs)"
  shows "xs = ys"
proof -
  have "mset (map sortKey ys) = mset (map sortKey xs)"
    using assms(3) by simp
  then have dy: "distinct (map sortKey ys)"
    using assms(4) by (metis mset_eq_imp_distinct_iff)
  have sx: "sorted_wrt (<) (map descKey xs)"
    by (rule strict_sorted_descKey [OF assms(1) assms(4)])
  have sy: "sorted_wrt (<) (map descKey ys)"
    by (rule strict_sorted_descKey [OF assms(2) dy])
  have st: "set xs = set ys"
    using assms(3) by (rule mset_eq_setD)
  then have "set (map descKey ys) = set (map descKey xs)"
    by simp
  with sx sy have eq: "map descKey xs = map descKey ys"
    using strict_sorted_equal by metis
  have "inj_on sortKey (set xs)"
    using assms(4) by (simp add: distinct_map)
  then have "inj_on descKey (set xs \<union> set ys)"
    using st by (auto simp: inj_on_def descKey_eq)
  with eq show ?thesis
    by (rule map_inj_on)
qed

text \<open>
  C4 (as amended). Two sessions that ingest the same items, split into calls and ordered
  in any way, end with the same \<open>totalMintEvents\<close> and \<open>uniqueTokens\<close> for every contract,
  whether or not items share a sort key; and when no two of the items share both block
  number and log index, they end with the same global log.
\<close>

theorem ingest_order_independent:
  assumes "mset (itemsOf evs1) = mset (itemsOf evs2)"
  shows "(\<forall>a. map_option totalMintEvents (summaries (run httpProvider startLive evs1) a)
                  = map_option totalMintEvents (summaries (run httpProvider startLive evs2) a)
              \<and> map_option uniqueTokens (summaries (run httpProvider startLive evs1) a)
                  = map_option uniqueTokens (summaries (run httpProvider startLive evs2) a))
         \<and> (distinct (map sortKey (itemsOf evs1)) \<longrightarrow>
              mints (run httpProvider startLive evs1) = mints (run httpProvider startLive evs2))"
proof -
  let ?s1 = "run httpProvider startLive evs1" and ?s2 = "run httpProvider startLive evs2"
  have e: "sorted_wrt precedes (mints startLive)" by (simp add: startLive_def)
  have m1: "mset (mints ?s1) = mset (map (stamp httpProvider) (itemsOf evs1))"
    using mset_mints_run [of httpProvider startLive evs1] by (simp add: startLive_def)
  have m2: "mset (mints ?s2) = mset (map (stamp httpProvider) (itemsOf evs2))"
    using mset_mints_run [of httpProvider startLive evs2] by (simp add: startLive_def)
  have "mset (map (stamp httpProvider) (itemsOf evs1)) = mset (map (stamp httpProvider) (itemsOf evs2))"
    using assms by (metis mset_map)
  with m1 m2 have mm: "mset (mints ?s1) = mset (mints ?s2)" by simp
  have eqk: "map sortKey (map (stamp httpProvider) (itemsOf evs1)) = map sortKey (itemsOf evs1)"
    by (simp add: sortKey_stamp)
  have mk: "mset (map sortKey (mints ?s1))
              = mset (map sortKey (map (stamp httpProvider) (itemsOf evs1)))"
    using m1 by (metis mset_map)
  have log: "distinct (map sortKey (itemsOf evs1)) \<Longrightarrow> mints ?s1 = mints ?s2"
  proof -
    assume dk: "distinct (map sortKey (itemsOf evs1))"
    have "distinct (map sortKey (map (stamp httpProvider) (itemsOf evs1)))"
      unfolding eqk by (rule dk)
    with mk have d: "distinct (map sortKey (mints ?s1))"
      by (metis mset_eq_imp_distinct_iff)
    show "mints ?s1 = mints ?s2"
      by (rule sorted_unique [OF sorted_mints_run [OF e] sorted_mints_run [OF e] mm d])
  qed
  have tot: "\<And>a. length (mintedBy a (itemsOf evs1)) = length (mintedBy a (itemsOf evs2))"
  proof -
    fix a
    have "mset (mintedBy a (itemsOf evs1)) = mset (mintedBy a (itemsOf evs2))"
      unfolding mintedBy_def using assms by (metis mset_filter)
    then show "length (mintedBy a (itemsOf evs1)) = length (mintedBy a (itemsOf evs2))"
      by (metis size_mset)
  qed
  have tok: "\<And>a. set (seenTokenIds a (itemsOf evs1)) = set (seenTokenIds a (itemsOf evs2))"
  proof -
    fix a
    have "set (itemsOf evs1) = set (itemsOf evs2)"
      using assms by (rule mset_eq_setD)
    then show "set (seenTokenIds a (itemsOf evs1)) = set (seenTokenIds a (itemsOf evs2))"
      by (simp add: seenTokenIds_def)
  qed
  have sums: "\<And>a. map_option totalMintEvents (summaries ?s1 a)
                  = map_option totalMintEvents (summaries ?s2 a)
              \<and> map_option uniqueTokens (summaries ?s1 a)
                  = map_option uniqueTokens (summaries ?s2 a)"
  proof -
    fix a
    show "map_option totalMintEvents (summaries ?s1 a)
                  = map_option totalMintEvents (summaries ?s2 a)
              \<and> map_option uniqueTokens (summaries ?s1 a)
                  = map_option uniqueTokens (summaries ?s2 a)"
    proof (cases "mintedBy a (itemsOf evs1) = []")
      case True
      then have "mintedBy a (itemsOf evs2) = []" using tot [of a] by simp
      with True show ?thesis
        using summary_of_session [of httpProvider evs1 a]
          summary_of_session [of httpProvider evs2 a] by simp
    next
      case False
      then have f2: "mintedBy a (itemsOf evs2) \<noteq> []" using tot [of a] by auto
      from False obtain c1 where c1: "summaries ?s1 a = Some c1"
        using summary_of_session [of httpProvider evs1 a] by auto
      from f2 obtain c2 where c2: "summaries ?s2 a = Some c2"
        using summary_of_session [of httpProvider evs2 a] by auto
      show ?thesis
        using c1 c2 tot [of a] tok [of a]
          summary_of_session [of httpProvider evs1 a]
          summary_of_session [of httpProvider evs2 a] by simp
    qed
  qed
  show ?thesis using log sums by blast
qed

theorem ingest_order_independent_witness:
  "mints (run None startLive [NewItems [nftItem ''A'' 1 0 ''7''], NewItems [nftItem ''A'' 2 0 ''8'']])
   = mints (run None startLive [NewItems [nftItem ''A'' 2 0 ''8'', nftItem ''A'' 1 0 ''7'']])
   \<and> map_option totalMintEvents
        (summaries (run None startLive
           [NewItems [subItem batchLog ''A'' ''B'' 1000 ''1001'' ''1''],
            NewItems [nftItem ''A'' 100 6 ''7'']]) ''A'')
     = map_option totalMintEvents
        (summaries (run None startLive
           [NewItems [nftItem ''A'' 100 6 ''7''],
            NewItems [subItem batchLog ''A'' ''B'' 1000 ''1001'' ''1'']]) ''A'')
   \<and> map_option uniqueTokens
        (summaries (run None startLive
           [NewItems [subItem batchLog ''A'' ''B'' 1000 ''1001'' ''1''],
            NewItems [nftItem ''A'' 100 6 ''7'']]) ''A'')
     = map_option uniqueTokens
        (summaries (run None startLive
           [NewItems [nftItem ''A'' 100 6 ''7''],
            NewItems [subItem batchLog ''A'' ''B'' 1000 ''1001'' ''1'']]) ''A'')"
proof -
  let ?e1 = "[NewItems [nftItem ''A'' 1 0 ''7''], NewItems [nftItem ''A'' 2 0 ''8'']]"
  let ?e2 = "[NewItems [nftItem ''A'' 2 0 ''8'', nftItem ''A'' 1 0 ''7'']]"
  let ?t1 = "[NewItems [subItem batchLog ''A'' ''B'' 1000 ''1001'' ''1''],
              NewItems [nftItem ''A'' 100 6 ''7'']]"
  let ?t2 = "[NewItems [nftItem ''A'' 100 6 ''7''],
              NewItems [subItem batchLog ''A'' ''B'' 1000 ''1001'' ''1'']]"
  have p: "mset (itemsOf ?e1) = mset (itemsOf ?e2)"
    by simp
  have d: "distinct (map sortKey (itemsOf ?e1))"
    by (simp add: sortKey_def nftItem_def)
  have q: "mset (itemsOf ?t1) = mset (itemsOf ?t2)"
    by simp
  show ?thesis
    using ingest_order_independent [OF p, of None] d
      ingest_order_independent [OF q, of None]
    by blast
qed

text \<open>
  C4 as stated fails when two items share block number and log index: sub-item 1000 of a
  batch log at index 5 has log index 6, as the log after it has. The sort is stable, so
  the one ingested last comes first, and the two orders of arrival give two logs.
\<close>

theorem ingest_order_tie_counterexample:
  "mset (itemsOf [NewItems [subItem batchLog ''A'' ''B'' 1000 ''1001'' ''1''],
                  NewItems [nftItem ''A'' 100 6 ''7'']])
     = mset (itemsOf [NewItems [nftItem ''A'' 100 6 ''7''],
                      NewItems [subItem batchLog ''A'' ''B'' 1000 ''1001'' ''1'']])
   \<and> mints (run None startLive
        [NewItems [subItem batchLog ''A'' ''B'' 1000 ''1001'' ''1''],
         NewItems [nftItem ''A'' 100 6 ''7'']])
     = [nftItem ''A'' 100 6 ''7'', subItem batchLog ''A'' ''B'' 1000 ''1001'' ''1'']
   \<and> mints (run None startLive
        [NewItems [nftItem ''A'' 100 6 ''7''],
         NewItems [subItem batchLog ''A'' ''B'' 1000 ''1001'' ''1'']])
     = [subItem batchLog ''A'' ''B'' 1000 ''1001'' ''1'', nftItem ''A'' 100 6 ''7'']
   \<and> nftItem ''A'' 100 6 ''7'' \<noteq> subItem batchLog ''A'' ''B'' 1000 ''1001'' ''1''"
  by (simp add: run_def processNewItems_def Let_def mints_ingestItem sortBy_def
        mintCompare_def stamp_def fetchTimestamp_def subItem_def nftItem_def batchLog_def
        startLive_def)

section \<open>Properties of the metadata fetch\<close>

lemma fetchInv_upsertSummary: "fetchInv s \<Longrightarrow> fetchInv (upsertSummary it s)"
  by (simp add: fetchInv_def upsertSummary_def Let_def)

lemma fetchInv_enrichCollection: "fetchInv s \<Longrightarrow> fetchInv (enrichCollection hp a ty s)"
  by (auto simp: fetchInv_def enrichCollection_def)

lemma fetchInv_ingestItem: "fetchInv s \<Longrightarrow> fetchInv (ingestItem hp s it)"
  by (simp add: ingestItem_def Let_def fetchInv_upsertSummary fetchInv_enrichCollection)

lemma fetchInv_ingestItems: "fetchInv s \<Longrightarrow> fetchInv (foldl (ingestItem hp) s xs)"
  by (induction xs arbitrary: s) (simp_all add: fetchInv_ingestItem)

lemma fetchInv_processNewItems: "fetchInv s \<Longrightarrow> fetchInv (processNewItems hp xs s)"
  using fetchInv_ingestItems [of s hp xs]
  by (simp add: processNewItems_def Let_def fetchInv_def)

lemma fetchInv_enrichResolved: "fetchInv s \<Longrightarrow> fetchInv (enrichResolved a meta s)"
  by (auto simp: fetchInv_def enrichResolved_def)

lemma fetchInv_run: "fetchInv s \<Longrightarrow> fetchInv (run hp s evs)"
proof (induction evs arbitrary: s)
  case Nil
  then show ?case by (simp add: run_def)
next
  case (Cons ev evs)
  then show ?case
    by (cases ev) (simp_all add: run_def fetchInv_processNewItems fetchInv_enrichResolved)
qed

lemma fetchInv_startLive: "fetchInv startLive"
  by (simp add: fetchInv_def startLive_def)

lemma distinct_count_le_one:
  "distinct (map f xs) \<Longrightarrow> length (filter (\<lambda>y. f y = a) xs) \<le> 1"
proof (induction xs)
  case Nil
  then show ?case by simp
next
  case (Cons x xs)
  show ?case
  proof (cases "f x = a")
    case True
    then have "a \<notin> f ` set xs"
      using Cons.prems by auto
    then have "\<forall>y\<in>set xs. f y \<noteq> a"
      by blast
    then have "filter (\<lambda>y. f y = a) xs = []"
      by simp
    with True show ?thesis by simp
  next
    case False
    with Cons show ?thesis by simp
  qed
qed

text \<open>
  C5. In a live session, whatever the order of \<open>processNewItems\<close> calls and metadata
  completions, the history of fetches holds each address at most once. The entry in the
  cache is the marker: \<open>enrichCollection\<close> on an address that has one does nothing, and on
  an address that has none it stores the empty placeholder in the same step in which it
  issues the calls.
\<close>

theorem one_fetch_per_address:
  "length (filter (\<lambda>f. fst f = addr) (fetches (run httpProvider startLive evs))) \<le> 1
   \<and> (metaCache s addr \<noteq> None \<longrightarrow> enrichCollection httpProvider addr ty s = s)
   \<and> (httpProvider \<noteq> None \<and> metaCache s addr = None \<longrightarrow>
        metaCache (enrichCollection httpProvider addr ty s) addr = Some emptyMeta
        \<and> fetches (enrichCollection httpProvider addr ty s) = fetches s @ [(addr, ty)])"
proof -
  have "fetchInv (run httpProvider startLive evs)"
    by (rule fetchInv_run [OF fetchInv_startLive])
  then have "distinct (map fst (fetches (run httpProvider startLive evs)))"
    by (simp add: fetchInv_def)
  then have "length (filter (\<lambda>f. fst f = addr) (fetches (run httpProvider startLive evs))) \<le> 1"
    by (rule distinct_count_le_one)
  then show ?thesis
    by (simp add: enrichCollection_def)
qed

theorem one_fetch_per_address_witness:
  "fetches (run (Some (\<lambda>bn. None)) startLive
      [NewItems [nftItem ''A'' 1 0 ''1''], NewItems [nftItem ''A'' 1 1 ''2''],
       NewItems [nftItem ''A'' 1 2 ''3''], NewItems [nftItem ''A'' 2 0 ''4''],
       NewItems [nftItem ''A'' 2 1 ''5''],
       MetaSettled ''A'' ERC721 (Some ''Name'') None None,
       NewItems [nftItem ''A'' 3 0 ''6'']])
   = [(''A'', ERC721)]
   \<and> length (filter (\<lambda>f. fst f = ''A'') (fetches (run (Some (\<lambda>bn. None)) startLive
      [NewItems [nftItem ''A'' 1 0 ''1''], NewItems [nftItem ''A'' 1 1 ''2''],
       NewItems [nftItem ''A'' 1 2 ''3''], NewItems [nftItem ''A'' 2 0 ''4''],
       NewItems [nftItem ''A'' 2 1 ''5''],
       MetaSettled ''A'' ERC721 (Some ''Name'') None None,
       NewItems [nftItem ''A'' 3 0 ''6'']]))) \<le> 1"
proof -
  let ?evs = "[NewItems [nftItem ''A'' 1 0 ''1''], NewItems [nftItem ''A'' 1 1 ''2''],
       NewItems [nftItem ''A'' 1 2 ''3''], NewItems [nftItem ''A'' 2 0 ''4''],
       NewItems [nftItem ''A'' 2 1 ''5''],
       MetaSettled ''A'' ERC721 (Some ''Name'') None None,
       NewItems [nftItem ''A'' 3 0 ''6'']]"
  have "fetches (run (Some (\<lambda>bn. None)) startLive ?evs) = [(''A'', ERC721)]"
    by code_simp
  then show ?thesis
    using one_fetch_per_address [of "''A''" "Some (\<lambda>bn. None)" ?evs startLive ERC721]
    by simp
qed

section \<open>Summary creation and metadata resolution\<close>



section \<open>The contract filter\<close>

lemma toLowerCase_Nil: "toLowerCase a = [] \<longleftrightarrow> a = []"
  by (simp add: toLowerCase_def)

lemma caseTable_fst: "distinct (map fst caseTable)"
  by (simp add: caseTable_def)

lemma caseTable_snd: "distinct (map snd caseTable)"
  by (simp add: caseTable_def)

lemma caseTable_disjoint: "set (map fst caseTable) \<inter> set (map snd caseTable) = {}"
  by (simp add: caseTable_def)

lemma lowerChar_table: "lowerChar c = (case map_of caseTable c of None \<Rightarrow> c | Some l \<Rightarrow> l)"
  by (simp add: lowerChar_def caseTable_def)

lemma lowerChar_upper: "(x, v) \<in> set caseTable \<Longrightarrow> lowerChar x = v"
  using caseTable_fst by (simp add: lowerChar_table)

lemma lowerChar_other: "x \<notin> set (map fst caseTable) \<Longrightarrow> lowerChar x = x"
proof -
  assume "x \<notin> set (map fst caseTable)"
  then have "map_of caseTable x = None"
    by (simp add: map_of_eq_None_iff)
  then show ?thesis by (simp add: lowerChar_table)
qed

lemma lowerChar_lower: "(x, v) \<in> set caseTable \<Longrightarrow> lowerChar v = v"
proof -
  assume "(x, v) \<in> set caseTable"
  then have "v \<in> set (map snd caseTable)" by force
  then have "v \<notin> set (map fst caseTable)" using caseTable_disjoint by blast
  then show ?thesis by (rule lowerChar_other)
qed

lemma lowerChar_cases:
  "(\<exists>v. (x, v) \<in> set caseTable \<and> lowerChar x = v) \<or> (x \<notin> set (map fst caseTable) \<and> lowerChar x = x)"
proof (cases "x \<in> set (map fst caseTable)")
  case True
  then obtain v where "(x, v) \<in> set caseTable" by auto
  then show ?thesis using lowerChar_upper by blast
next
  case False
  then show ?thesis using lowerChar_other by blast
qed

lemma caseTable_inj: "(x, v) \<in> set caseTable \<Longrightarrow> (y, v) \<in> set caseTable \<Longrightarrow> x = y"
proof -
  assume a: "(x, v) \<in> set caseTable" and b: "(y, v) \<in> set caseTable"
  have i: "inj_on snd (set caseTable)"
    using caseTable_snd by (simp add: distinct_map)
  have "(x, v) = (y, v)"
    by (rule inj_onD [OF i _ a b]) simp
  then show ?thesis by simp
qed

lemma lowerChar_eq_iff: "lowerChar x = lowerChar y \<longleftrightarrow> sameLetter x y"
proof
  assume e: "lowerChar x = lowerChar y"
  from lowerChar_cases [of x] lowerChar_cases [of y] e
  show "sameLetter x y"
    unfolding sameLetter_def
    by (metis caseTable_inj)
next
  assume "sameLetter x y"
  then show "lowerChar x = lowerChar y"
    unfolding sameLetter_def
    using lowerChar_upper lowerChar_lower by metis
qed

lemma toLowerCase_eq_iff: "toLowerCase a = toLowerCase b \<longleftrightarrow> equalIgnoringCase a b"
proof -
  have "toLowerCase a = toLowerCase b \<longleftrightarrow> list_all2 (=) (map lowerChar a) (map lowerChar b)"
    by (simp add: toLowerCase_def list.rel_eq)
  also have "\<dots> \<longleftrightarrow> list_all2 (\<lambda>x y. lowerChar x = lowerChar y) a b"
    by (simp add: list_all2_map1 list_all2_map2)
  finally show ?thesis
    by (simp add: equalIgnoringCase_def lowerChar_eq_iff)
qed

text \<open>
  C8. The filter rejects a missing transaction and a transaction with no destination, and
  accepts a destination exactly when it equals an entry of the allow-list without regard
  to case. The listener acts on the answer of the filter before anything else: for a
  rejected transaction it leaves the state as it is and writes nothing, whatever the log
  holds and whatever decoding it would do; for an accepted one the state is that of
  \<open>processNewItems\<close> on the items \<open>processLog\<close> decodes, when there are any, and the console
  holds what \<open>processLog\<close> wrote.
\<close>

theorem contract_filter:
  "\<not> isAllowed None
   \<and> \<not> isAllowed (Some None)
   \<and> (isAllowed (Some (Some dest)) \<longleftrightarrow>
        (\<exists>e\<in>set MINT_CONTRACT_WHITELIST. equalIgnoringCase dest e))
   \<and> (\<not> isAllowed tx \<longrightarrow> listener lib httpProvider tx lg s = (s, []))
   \<and> (isAllowed tx \<longrightarrow>
        (\<forall>e. processLog lib lg = Inl e \<longrightarrow>
           listener lib httpProvider tx lg s = (s, [ErrorProcessingLiveLog e]))
        \<and> (processLog lib lg = Inr [] \<longrightarrow>
           listener lib httpProvider tx lg s = (s, processLogConsole lib lg))
        \<and> (\<forall>newItems. processLog lib lg = Inr newItems \<longrightarrow> newItems \<noteq> [] \<longrightarrow>
           listener lib httpProvider tx lg s
             = (processNewItems httpProvider newItems s, processLogConsole lib lg)))"
proof -
  have "isAllowed (Some (Some dest)) \<longleftrightarrow>
        (\<exists>e\<in>set MINT_CONTRACT_WHITELIST. toLowerCase dest = toLowerCase e)"
  proof (cases "dest = []")
    case True
    then show ?thesis
      by (simp add: isAllowed_def MINT_CONTRACT_WHITELIST_def toLowerCase_def)
  next
    case False
    then show ?thesis
      by (auto simp: isAllowed_def allowedMintContracts_def)
  qed
  then have f: "isAllowed (Some (Some dest)) \<longleftrightarrow>
        (\<exists>e\<in>set MINT_CONTRACT_WHITELIST. equalIgnoringCase dest e)"
    by (simp add: toLowerCase_eq_iff)
  have r: "\<not> isAllowed tx \<longrightarrow> listener lib httpProvider tx lg s = (s, [])"
    by (simp add: listener_def)
  have a: "isAllowed tx \<longrightarrow>
        (\<forall>e. processLog lib lg = Inl e \<longrightarrow>
           listener lib httpProvider tx lg s = (s, [ErrorProcessingLiveLog e]))
        \<and> (processLog lib lg = Inr [] \<longrightarrow>
           listener lib httpProvider tx lg s = (s, processLogConsole lib lg))
        \<and> (\<forall>newItems. processLog lib lg = Inr newItems \<longrightarrow> newItems \<noteq> [] \<longrightarrow>
           listener lib httpProvider tx lg s
             = (processNewItems httpProvider newItems s, processLogConsole lib lg))"
    by (simp add: listener_def)
  have n: "\<not> isAllowed None \<and> \<not> isAllowed (Some None)"
    by (simp add: isAllowed_def)
  show ?thesis
    using n f r a by blast
qed

theorem contract_filter_witness:
  "isAllowed (Some (Some ''0x00000000009A1E02F00E280DCFA4C81C55724212''))
   \<and> \<not> isAllowed (Some (Some ''0x0000000000000000000000000000000000001155''))
   \<and> processLogConsole plainEthers shortValuesLog = [ErrorProcessingLog shortValuesLog RangeError]
   \<and> listener plainEthers None (Some (Some ''0x0000000000000000000000000000000000001155''))
        shortValuesLog startLive = (startLive, [])
   \<and> map tokenId (mints (fst (listener plainEthers None
        (Some (Some ''0x00000000009A1E02F00E280DCFA4C81C55724212'')) batchLog startLive)))
       = [Some ''3'', Some ''2'', Some ''1'']"
proof -
  let ?up = "''0x00000000009A1E02F00E280DCFA4C81C55724212''"
  let ?other = "''0x0000000000000000000000000000000000001155''"
  let ?items = "[subItem batchLog ''0x0000000000000000000000000000000000001155''
                   ''0x0000000000000000000000000000000000000007'' 0 ''1'' ''10'',
                 subItem batchLog ''0x0000000000000000000000000000000000001155''
                   ''0x0000000000000000000000000000000000000007'' 1 ''2'' ''20'',
                 subItem batchLog ''0x0000000000000000000000000000000000001155''
                   ''0x0000000000000000000000000000000000000007'' 2 ''3'' ''30'']"
  have l: "equalIgnoringCase ?up ''0x00000000009a1E02f00E280dcfA4C81c55724212''"
    by (simp add: equalIgnoringCase_def sameLetter_def caseTable_def)
  have n: "\<not> equalIgnoringCase ?other ''0x00000000009a1E02f00E280dcfA4C81c55724212''"
    by (simp add: equalIgnoringCase_def sameLetter_def caseTable_def)
  have a: "isAllowed (Some (Some ?up))"
    using contract_filter [of ?up] l
    by (simp add: MINT_CONTRACT_WHITELIST_def)
  have r: "\<not> isAllowed (Some (Some ?other))"
    using contract_filter [of ?other] n
    by (simp add: MINT_CONTRACT_WHITELIST_def)
  have c: "processLogConsole plainEthers shortValuesLog
             = [ErrorProcessingLog shortValuesLog RangeError]"
    by code_simp
  have rej: "listener plainEthers None (Some (Some ?other)) shortValuesLog startLive
               = (startLive, [])"
    using r contract_filter [of ?other "Some (Some ?other)" plainEthers None
        shortValuesLog startLive]
    by blast
  have p: "processLog plainEthers batchLog = Inr ?items"
    by code_simp
  have ne: "?items \<noteq> []"
    by simp
  have acc: "listener plainEthers None (Some (Some ?up)) batchLog startLive
               = (processNewItems None ?items startLive, processLogConsole plainEthers batchLog)"
    using a p ne contract_filter [of ?up "Some (Some ?up)" plainEthers None batchLog startLive]
    by blast
  have m: "map tokenId (mints (processNewItems None ?items startLive))
             = [Some ''3'', Some ''2'', Some ''1'']"
    by code_simp
  show ?thesis
    using a r c rej acc m by simp
qed

section \<open>What a summary keeps\<close>

lemma kept_upsertSummary:
  "summaries s a = Some c \<Longrightarrow>
     \<exists>c'. summaries (upsertSummary it s) a = Some c'
          \<and> address c' = address c \<and> summaryType c' = summaryType c"
  by (cases "contract it = a") (auto simp: upsertSummary_def Let_def)

lemma kept_ingestItems:
  "summaries s a = Some c \<Longrightarrow>
     \<exists>c'. summaries (foldl (ingestItem hp) s xs) a = Some c'
          \<and> address c' = address c \<and> summaryType c' = summaryType c"
proof (induction xs arbitrary: s c)
  case Nil
  then show ?case by simp
next
  case (Cons x xs)
  from kept_upsertSummary [OF Cons.prems, of x]
  obtain c1 where c1: "summaries (ingestItem hp s x) a = Some c1"
    "address c1 = address c" "summaryType c1 = summaryType c"
    by (auto simp: summaries_ingestItem)
  from Cons.IH [OF c1(1)] c1(2,3) show ?case by simp
qed

lemma kept_enrichResolved:
  "summaries s a = Some c \<Longrightarrow>
     \<exists>c'. summaries (enrichResolved b meta s) a = Some c'
          \<and> address c' = address c \<and> summaryType c' = summaryType c"
  by (cases "b = a") (auto simp: enrichResolved_def split: option.splits)

lemma kept_step:
  "summaries s a = Some c \<Longrightarrow>
     \<exists>c'. summaries (step hp s ev) a = Some c'
          \<and> address c' = address c \<and> summaryType c' = summaryType c"
proof (cases ev)
  case (NewItems xs)
  assume "summaries s a = Some c"
  from kept_ingestItems [OF this, of hp xs] NewItems show ?thesis
    by (simp add: summaries_processNewItems)
next
  case (MetaSettled b ty n sy d)
  assume "summaries s a = Some c"
  from kept_enrichResolved [OF this] MetaSettled show ?thesis
    by simp
qed

lemma kept_run:
  "summaries s a = Some c \<Longrightarrow>
     \<exists>c'. summaries (run hp s evs) a = Some c'
          \<and> address c' = address c \<and> summaryType c' = summaryType c"
proof (induction evs arbitrary: s c)
  case Nil
  then show ?case by (simp add: run_def)
next
  case (Cons ev evs)
  from kept_step [OF Cons.prems, of hp ev]
  obtain c1 where c1: "summaries (step hp s ev) a = Some c1"
    "address c1 = address c" "summaryType c1 = summaryType c"
    by auto
  from Cons.IH [OF c1(1)] c1(2,3) show ?case by (simp add: run_def)
qed

text \<open>
  C10. A summary that exists keeps its address and its type through every later
  \<open>processNewItems\<close> call and metadata completion. \<open>upsertSummary\<close> for an item of that
  address, of whatever type, rewrites \<open>tokenIds\<close>, \<open>uniqueTokens\<close> and \<open>totalMintEvents\<close>
  only, and for an item of another address nothing; the resolution of the metadata
  rewrites \<open>name\<close>, \<open>symbol\<close> and \<open>decimals\<close> only.
\<close>

theorem summary_frame:
  assumes "summaries s a = Some c"
  shows "(\<exists>c'. summaries (run httpProvider s evs) a = Some c'
               \<and> address c' = address c \<and> summaryType c' = summaryType c)
         \<and> (contract it = a \<longrightarrow>
              summaries (upsertSummary it s) a =
                Some (c\<lparr>tokenIds := (if truthy (tokenId it)
                                      then insert (the (tokenId it)) (tokenIds c)
                                      else tokenIds c),
                        uniqueTokens := card (if truthy (tokenId it)
                                              then insert (the (tokenId it)) (tokenIds c)
                                              else tokenIds c),
                        totalMintEvents := totalMintEvents c + 1\<rparr>))
         \<and> (contract it \<noteq> a \<longrightarrow> summaries (upsertSummary it s) a = Some c)
         \<and> summaries (enrichResolved a meta s) a =
              Some (c\<lparr>name := name meta, symbol := symbol meta, decimals := decimals meta\<rparr>)"
  using assms kept_run [OF assms, of httpProvider evs]
    summaries_upsert_Some [of s it c] summaries_upsert_other [of it a s]
    summaries_enrichResolved_Some [OF assms, of meta]
  by auto

theorem summary_frame_witness:
  "map_option summaryType
     (summaries (run None (upsertSummary (nftItem ''A'' 1 0 ''1'') startLive)
        [NewItems [(nftItem ''A'' 2 0 ''2'')\<lparr>type := ERC1155\<rparr>],
         MetaSettled ''A'' ERC20 (Some ''Name'') (Some ''SYM'') (Some 18)]) ''A'')
   = Some ERC721"
proof -
  have c: "summaries (upsertSummary (nftItem ''A'' 1 0 ''1'') startLive) ''A''
             = Some \<lparr>name = None, symbol = None, decimals = None, address = ''A'',
                     summaryType = ERC721, totalMintEvents = 1, uniqueTokens = 1,
                     tokenIds = {''1''}\<rparr>"
    by (simp add: upsertSummary_def startLive_def nftItem_def Let_def cached_def
          emptyMeta_def truthy_def)
  show ?thesis
    using summary_frame [OF c, of None
        "[NewItems [(nftItem ''A'' 2 0 ''2'')\<lparr>type := ERC1155\<rparr>],
          MetaSettled ''A'' ERC20 (Some ''Name'') (Some ''SYM'') (Some 18)]"]
    by auto
qed

end
